theory Spec2Isabelle
  imports Main "HOL-Library.Sublist"
begin

section \<open>The hostexec command wrapper of synology-csi\<close>

text \<open>
  A shallow embedding of \<^verbatim>\<open>pkg/utils/hostexec/hostexec.go\<close>. The package rewrites a
  command and its arguments in three stages (\<^verbatim>\<open>resolveCmd\<close>, \<^verbatim>\<open>wrapEnv\<close>,
  \<^verbatim>\<open>wrapChroot\<close>) so that the command runs inside a chroot directory with a fixed
  search path.

  The only effect of the code is \<^verbatim>\<open>os.Stat\<close>, a read of the filesystem. The filesystem
  is a function from paths to the result of \<^verbatim>\<open>os.Stat\<close>, and every call of
  \<^verbatim>\<open>os.Stat\<close> appends the path it asks about to a log that is passed through the
  functions, so that "no probe happens" is a statement about that log.
\<close>

subsection \<open>The filesystem as \<^verbatim>\<open>os.Stat\<close> sees it\<close>

text \<open>
  \<^verbatim>\<open>os.Stat\<close> returns a \<^verbatim>\<open>FileInfo\<close> or an error. Of the \<^verbatim>\<open>FileInfo\<close> the code
  reads \<^verbatim>\<open>IsDir()\<close> only; of the error it asks \<^verbatim>\<open>os.IsNotExist\<close> only.
\<close>

datatype oserror = ErrNotExist | ErrPermission | ErrOther

datatype fileinfo = FileInfo (IsDir: bool)

type_synonym filesystem = "string \<Rightarrow> oserror + fileinfo"

type_synonym probes = "string list"

definition os_Stat :: "filesystem \<Rightarrow> string \<Rightarrow> probes \<Rightarrow> (oserror + fileinfo) \<times> probes" where
  "os_Stat fs path log = (fs path, log @ [path])"

text \<open>The \<^verbatim>\<open>err\<close> half of the pair \<^verbatim>\<open>os.Stat\<close> returns: \<open>None\<close> is \<^verbatim>\<open>nil\<close>.\<close>

definition err_of :: "oserror + fileinfo \<Rightarrow> oserror option" where
  "err_of r = (case r of Inl e \<Rightarrow> Some e | Inr fi \<Rightarrow> None)"

definition os_IsNotExist :: "oserror option \<Rightarrow> bool" where
  "os_IsNotExist err = (case err of Some ErrNotExist \<Rightarrow> True | _ \<Rightarrow> False)"

subsection \<open>The functions of package \<^verbatim>\<open>strings\<close> that the code calls\<close>

text \<open>
  Strings are byte lists. \<^verbatim>\<open>strings.ContainsAny\<close> works on code points; the code
  calls it with \<^verbatim>\<open>"/"\<close> only, an ASCII byte that is never part of a longer UTF-8
  sequence, so the comparison of bytes gives the same answer.
\<close>

definition strings_ContainsAny :: "string \<Rightarrow> string \<Rightarrow> bool" where
  "strings_ContainsAny s chars = list_ex (\<lambda>c. c \<in> set chars) s"

definition strings_HasPrefix :: "string \<Rightarrow> string \<Rightarrow> bool" where
  "strings_HasPrefix s pre = (length s \<ge> length pre \<and> take (length pre) s = pre)"

definition strings_TrimPrefix :: "string \<Rightarrow> string \<Rightarrow> string" where
  "strings_TrimPrefix s pre = (if strings_HasPrefix s pre then drop (length pre) s else s)"

fun strings_Join :: "string list \<Rightarrow> string \<Rightarrow> string" where
  "strings_Join [] sep = ''''"
| "strings_Join [e] sep = e"
| "strings_Join (e # es) sep = e @ sep @ strings_Join es sep"

subsection \<open>The wrapper\<close>

definition defaultSearchPath :: "string list" where
  "defaultSearchPath =
     [''/usr/local/sbin'', ''/usr/local/bin'', ''/usr/sbin'', ''/usr/bin'', ''/sbin'', ''/bin'']"

text \<open>
  The struct \<^verbatim>\<open>hostexec\<close>. Its embedded \<^verbatim>\<open>Executor\<close> (the process spawner of
  \<^verbatim>\<open>k8s.io/utils/exec\<close>) is used by \<^verbatim>\<open>Command\<close> and \<^verbatim>\<open>CommandContext\<close> only and
  is left out. A \<^verbatim>\<open>nil\<close> map is the empty map: Go reads both the same way.
\<close>

record hostexec =
  commandMap :: "string \<rightharpoonup> string"
  chrootDir :: string

datatype error = ErrorString string

text \<open>\<^verbatim>\<open>New\<close>: lines 39 to 49.\<close>

definition New :: "filesystem \<Rightarrow> (string \<rightharpoonup> string) \<Rightarrow> string \<Rightarrow> probes \<Rightarrow> (error + hostexec) \<times> probes" where
  "New fs cmdMap chrootDir' log =
     (if chrootDir' \<noteq> '''' then
        (let (r, log1) = os_Stat fs chrootDir' log in
         if err_of r \<noteq> None \<or> \<not> (case r of Inr fileinfo \<Rightarrow> IsDir fileinfo | Inl e \<Rightarrow> False)
         then (Inl (ErrorString ''chroot directory does not exist or is not a directory''), log1)
         else (Inr \<lparr>commandMap = cmdMap, chrootDir = chrootDir'\<rparr>, log1))
      else (Inr \<lparr>commandMap = cmdMap, chrootDir = chrootDir'\<rparr>, log))"

text \<open>The two-valued map read \<^verbatim>\<open>c, ok := m[k]\<close>: a missing key reads as the zero value.\<close>

definition map_lookup :: "(string \<rightharpoonup> string) \<Rightarrow> string \<Rightarrow> string \<times> bool" where
  "map_lookup m k = (case m k of None \<Rightarrow> ('''', False) | Some v \<Rightarrow> (v, True))"

text \<open>\<^verbatim>\<open>resolveCmd\<close>: lines 51 to 58.\<close>

definition resolveCmd :: "hostexec \<Rightarrow> string \<Rightarrow> string list \<Rightarrow> string \<times> string list" where
  "resolveCmd h cmd args =
     (let (c, ok) = map_lookup (commandMap h) cmd in
      if \<not> ok \<or> c = '''' then (cmd, args) else (c, args))"

text \<open>
  The loop of \<^verbatim>\<open>wrapEnv\<close> over the search path, lines 75 to 91: the first directory
  whose probe returns no error decides; when the directories run out the command is
  returned as it came.
\<close>

fun searchDirs :: "filesystem \<Rightarrow> hostexec \<Rightarrow> string \<Rightarrow> string list \<Rightarrow> string list \<Rightarrow> probes
    \<Rightarrow> (string \<times> string list) \<times> probes" where
  "searchDirs fs h cmd args [] log = ((cmd, args), log)"
| "searchDirs fs h cmd args (dir # dirs) log =
     (let testPath = dir @ ''/'' @ cmd;
          testPath = (if chrootDir h \<noteq> '''' then chrootDir h @ testPath else testPath);
          (r, log1) = os_Stat fs testPath log
      in if err_of r = None then
           (if chrootDir h \<noteq> '''' then ((strings_TrimPrefix testPath (chrootDir h), args), log1)
            else ((testPath, args), log1))
         else searchDirs fs h cmd args dirs log1)"

text \<open>\<^verbatim>\<open>wrapEnv\<close>: lines 60 to 100.\<close>

definition wrapEnv :: "filesystem \<Rightarrow> hostexec \<Rightarrow> string \<Rightarrow> string list \<Rightarrow> probes
    \<Rightarrow> (string \<times> string list) \<times> probes" where
  "wrapEnv fs h cmd args log =
     (if strings_ContainsAny cmd ''/'' then ((cmd, args), log)
      else
        (let envPath = (if chrootDir h \<noteq> '''' then chrootDir h @ ''/usr/bin/env''
                        else ''/usr/bin/env'');
             (r, log1) = os_Stat fs envPath log
         in if os_IsNotExist (err_of r) then searchDirs fs h cmd args defaultSearchPath log1
            else
              (let sp = ''PATH='' @ strings_Join defaultSearchPath '':''
               in ((''/usr/bin/env'', [''-i'', sp, cmd] @ args), log1))))"

text \<open>\<^verbatim>\<open>wrapChroot\<close>: lines 102 to 111.\<close>

definition wrapChroot :: "hostexec \<Rightarrow> string \<Rightarrow> string list \<Rightarrow> string \<times> string list" where
  "wrapChroot h cmd args =
     (if chrootDir h = '''' then (cmd, args)
      else (''/usr/sbin/chroot'', [chrootDir h, cmd] @ args))"

text \<open>\<^verbatim>\<open>wrap\<close>: lines 113 to 119.\<close>

definition wrap :: "filesystem \<Rightarrow> hostexec \<Rightarrow> string \<Rightarrow> string list \<Rightarrow> probes
    \<Rightarrow> (string \<times> string list) \<times> probes" where
  "wrap fs h cmd args log =
     (let (cmd1, args1) = resolveCmd h cmd args;
          ((cmd2, args2), log2) = wrapEnv fs h cmd1 args1 log;
          (cmd3, args3) = wrapChroot h cmd2 args2
      in ((cmd3, args3), log2))"

subsection \<open>Concrete configurations and filesystems\<close>

definition h_host :: hostexec where
  "h_host = \<lparr>commandMap = Map.empty, chrootDir = ''/host''\<rparr>"

definition h_mapped :: hostexec where
  "h_mapped = \<lparr>commandMap = [''iscsiadm'' \<mapsto> ''/usr/local/sbin/iscsiadm'', ''mount'' \<mapsto> ''mount.real'',
                               ''blank'' \<mapsto> ''''],
               chrootDir = ''/host''\<rparr>"

definition h_plain :: hostexec where
  "h_plain = \<lparr>commandMap = Map.empty, chrootDir = ''''\<rparr>"

definition fs_none :: filesystem where
  "fs_none path = (if path = ''/host'' then Inr (FileInfo True) else Inl ErrNotExist)"

definition fs_env :: filesystem where
  "fs_env path =
     (if path = ''/host'' then Inr (FileInfo True)
      else if path = ''/host/usr/bin/env'' then Inr (FileInfo False)
      else Inl ErrNotExist)"

definition fs_bin_foo :: filesystem where
  "fs_bin_foo path =
     (if path = ''/host'' then Inr (FileInfo True)
      else if path = ''/host/bin/foo'' then Inr (FileInfo False)
      else Inl ErrNotExist)"

definition fs_two_foo :: filesystem where
  "fs_two_foo path =
     (if path = ''/host'' then Inr (FileInfo True)
      else if path = ''/host/usr/bin/foo'' then Inr (FileInfo False)
      else if path = ''/host/bin/foo'' then Inr (FileInfo False)
      else Inl ErrNotExist)"

definition fs_usr_bin_foo :: filesystem where
  "fs_usr_bin_foo path =
     (if path = ''/host/usr/bin/foo'' then Inr (FileInfo False) else Inl ErrNotExist)"

definition fs_denied :: filesystem where
  "fs_denied path =
     (if path = ''/host'' then Inr (FileInfo True)
      else if path = ''/host/usr/bin/env'' then Inl ErrPermission
      else if path = ''/host/bin/foo'' then Inr (FileInfo False)
      else Inl ErrNotExist)"

definition fs_file :: filesystem where
  "fs_file path = (if path = ''/host'' then Inr (FileInfo False) else Inl ErrNotExist)"

section \<open>Lemmas about the stages\<close>

text \<open>
  The loop step with the path written out: the chroot prefix that line 78 adds is the
  prefix that line 84 trims, so a hit returns the directory and the name, whatever the
  chroot directory is.
\<close>

lemma searchDirs_args: "snd (fst (searchDirs fs h cmd args dirs log)) = args"
  by (induction dirs arbitrary: log) (simp_all add: Let_def os_Stat_def)

lemma searchDirs_Cons:
  "searchDirs fs h cmd args (dir # dirs) log =
     (case fs (chrootDir h @ dir @ ''/'' @ cmd) of
        Inr fi \<Rightarrow> ((dir @ ''/'' @ cmd, args), log @ [chrootDir h @ dir @ ''/'' @ cmd])
      | Inl e \<Rightarrow> searchDirs fs h cmd args dirs (log @ [chrootDir h @ dir @ ''/'' @ cmd]))"
  by (cases "chrootDir h = ''''")
    (simp_all add: Let_def os_Stat_def err_of_def strings_TrimPrefix_def strings_HasPrefix_def
      split: sum.splits)

lemma searchDirs_log:
  "searchDirs fs h cmd args dirs log =
     (fst (searchDirs fs h cmd args dirs []), log @ snd (searchDirs fs h cmd args dirs []))"
proof (induction dirs arbitrary: log)
  case Nil
  then show ?case by simp
next
  case (Cons dir dirs)
  let ?p = "chrootDir h @ dir @ ''/'' @ cmd"
  show ?case
  proof (cases "fs ?p")
    case (Inr fi)
    then show ?thesis by (simp add: searchDirs_Cons del: searchDirs.simps)
  next
    case (Inl e)
    have a: "searchDirs fs h cmd args (dir # dirs) log = searchDirs fs h cmd args dirs (log @ [?p])"
      using Inl by (simp add: searchDirs_Cons del: searchDirs.simps)
    have b: "searchDirs fs h cmd args (dir # dirs) [] = searchDirs fs h cmd args dirs [?p]"
      using Inl by (simp add: searchDirs_Cons del: searchDirs.simps)
    show ?thesis
      unfolding a b
      using Cons.IH [of "log @ [?p]"] Cons.IH [of "[?p]"] by simp
  qed
qed

lemma wrapEnv_suffix: "suffix args (snd (fst (wrapEnv fs h cmd args log)))"
  by (simp add: wrapEnv_def Let_def os_Stat_def searchDirs_args suffix_def)

lemma resolveCmd_args: "snd (resolveCmd h cmd args) = args"
  by (simp add: resolveCmd_def map_lookup_def split: option.splits)

lemma wrapChroot_suffix: "suffix args (snd (wrapChroot h cmd args))"
  by (simp add: wrapChroot_def suffix_def)

lemma wrap_suffix: "suffix args (snd (fst (wrap fs h cmd args log)))"
proof -
  let ?c1 = "fst (resolveCmd h cmd args)"
  let ?e = "fst (wrapEnv fs h ?c1 args log)"
  have w: "snd (fst (wrap fs h cmd args log)) = snd (wrapChroot h (fst ?e) (snd ?e))"
    by (simp add: wrap_def Let_def split_beta resolveCmd_args)
  have "suffix args (snd ?e)"
    by (rule wrapEnv_suffix)
  also have "suffix (snd ?e) (snd (wrapChroot h (fst ?e) (snd ?e)))"
    by (rule wrapChroot_suffix)
  finally show ?thesis
    by (simp add: w)
qed


lemma PATH_value:
  "''PATH='' @ strings_Join defaultSearchPath '':'' =
     ''PATH=/usr/local/sbin:/usr/local/bin:/usr/sbin:/usr/bin:/sbin:/bin''"
  by (simp add: defaultSearchPath_def)

lemma resolveCmd_unmapped:
  "commandMap h cmd = None \<or> commandMap h cmd = Some '''' \<Longrightarrow> resolveCmd h cmd args = (cmd, args)"
  by (auto simp: resolveCmd_def map_lookup_def)

lemma wrap_unfold:
  "wrap fs h cmd args log =
     (wrapChroot h (fst (fst (wrapEnv fs h (fst (resolveCmd h cmd args)) (snd (resolveCmd h cmd args)) log)))
        (snd (fst (wrapEnv fs h (fst (resolveCmd h cmd args)) (snd (resolveCmd h cmd args)) log))),
      snd (wrapEnv fs h (fst (resolveCmd h cmd args)) (snd (resolveCmd h cmd args)) log))"
  by (simp add: wrap_def Let_def split_beta)

lemma wrapEnv_present:
  assumes "\<not> strings_ContainsAny cmd ''/''"
    and "fs (if chrootDir h \<noteq> '''' then chrootDir h @ ''/usr/bin/env'' else ''/usr/bin/env'') \<noteq> Inl ErrNotExist"
  shows "wrapEnv fs h cmd args log =
     ((''/usr/bin/env'',
       [''-i'', ''PATH=/usr/local/sbin:/usr/local/bin:/usr/sbin:/usr/bin:/sbin:/bin'', cmd] @ args),
      log @ [if chrootDir h \<noteq> '''' then chrootDir h @ ''/usr/bin/env'' else ''/usr/bin/env''])"
proof -
  let ?e = "if chrootDir h \<noteq> '''' then chrootDir h @ ''/usr/bin/env'' else ''/usr/bin/env''"
  have "\<not> os_IsNotExist (err_of (fs ?e))"
    using assms(2) by (cases "fs ?e") (auto simp: os_IsNotExist_def err_of_def split: oserror.splits)
  then show ?thesis
    using assms(1) PATH_value by (simp add: wrapEnv_def Let_def os_Stat_def)
qed

lemma wrapEnv_absent:
  assumes "\<not> strings_ContainsAny cmd ''/''"
    and "fs (if chrootDir h \<noteq> '''' then chrootDir h @ ''/usr/bin/env'' else ''/usr/bin/env'') = Inl ErrNotExist"
  shows "wrapEnv fs h cmd args log =
     searchDirs fs h cmd args defaultSearchPath
       (log @ [if chrootDir h \<noteq> '''' then chrootDir h @ ''/usr/bin/env'' else ''/usr/bin/env''])"
  using assms by (simp add: wrapEnv_def Let_def os_Stat_def os_IsNotExist_def err_of_def)

lemma searchDirs_miss:
  "\<forall>dir \<in> set dirs. isl (fs (chrootDir h @ dir @ ''/'' @ cmd)) \<Longrightarrow>
   fst (searchDirs fs h cmd args dirs log) = (cmd, args)"
proof (induction dirs arbitrary: log)
  case Nil
  then show ?case by simp
next
  case (Cons dir dirs)
  then obtain e where "fs (chrootDir h @ dir @ ''/'' @ cmd) = Inl e"
    by (cases "fs (chrootDir h @ dir @ ''/'' @ cmd)") auto
  with Cons show ?case
    by (simp add: searchDirs_Cons del: searchDirs.simps)
qed

lemma searchDirs_first_hit:
  "\<forall>dir \<in> set pre. isl (fs (chrootDir h @ dir @ ''/'' @ cmd)) \<Longrightarrow>
   fs (chrootDir h @ d @ ''/'' @ cmd) = Inr fi \<Longrightarrow>
   fst (searchDirs fs h cmd args (pre @ d # post) log) = (d @ ''/'' @ cmd, args)"
proof (induction pre arbitrary: log)
  case Nil
  then show ?case by (simp add: searchDirs_Cons del: searchDirs.simps)
next
  case (Cons dir pre)
  then obtain e where "fs (chrootDir h @ dir @ ''/'' @ cmd) = Inl e"
    by (cases "fs (chrootDir h @ dir @ ''/'' @ cmd)") auto
  with Cons show ?case
    by (simp add: searchDirs_Cons del: searchDirs.simps)
qed

lemma searchDirs_chrootDir:
  "chrootDir h' = chrootDir h \<Longrightarrow>
   searchDirs fs h' cmd args dirs log = searchDirs fs h cmd args dirs log"
  by (induction dirs arbitrary: log)
    (simp_all add: searchDirs_Cons split: sum.splits del: searchDirs.simps(2))

lemma wrapEnv_chrootDir:
  "chrootDir h' = chrootDir h \<Longrightarrow> wrapEnv fs h' cmd args log = wrapEnv fs h cmd args log"
  by (simp add: wrapEnv_def Let_def os_Stat_def searchDirs_chrootDir [of h' h])

lemma searchDirs_frame:
  "\<forall>p \<in> set (snd (searchDirs fs h cmd args dirs [])). fs' p = fs p \<Longrightarrow>
   searchDirs fs' h cmd args dirs log = searchDirs fs h cmd args dirs log"
proof (induction dirs arbitrary: log)
  case Nil
  then show ?case by simp
next
  case (Cons dir dirs)
  let ?p = "chrootDir h @ dir @ ''/'' @ cmd"
  show ?case
  proof (cases "fs ?p")
    case (Inr fi)
    then have "fs' ?p = fs ?p"
      using Cons.prems(1) by (simp add: searchDirs_Cons del: searchDirs.simps)
    with Inr show ?thesis
      by (simp add: searchDirs_Cons del: searchDirs.simps)
  next
    case (Inl e)
    then have s: "snd (searchDirs fs h cmd args (dir # dirs) []) =
        ?p # snd (searchDirs fs h cmd args dirs [])"
      using searchDirs_log [of fs h cmd args dirs "[?p]"]
      by (simp add: searchDirs_Cons del: searchDirs.simps)
    have p: "fs' ?p = fs ?p" and r: "\<forall>p \<in> set (snd (searchDirs fs h cmd args dirs [])). fs' p = fs p"
      using Cons.prems(1) unfolding s by simp_all
    show ?thesis
      using Inl p Cons.IH [OF r]
      by (simp add: searchDirs_Cons del: searchDirs.simps)
  qed
qed

lemma wrapEnv_frame:
  assumes "\<forall>p \<in> set (snd (wrapEnv fs h cmd args [])). fs' p = fs p"
  shows "wrapEnv fs' h cmd args log = wrapEnv fs h cmd args log"
proof (cases "strings_ContainsAny cmd ''/''")
  case True
  then show ?thesis by (simp add: wrapEnv_def)
next
  case False
  let ?e = "if chrootDir h \<noteq> '''' then chrootDir h @ ''/usr/bin/env'' else ''/usr/bin/env''"
  show ?thesis
  proof (cases "fs ?e = Inl ErrNotExist")
    case True
    have s: "snd (wrapEnv fs h cmd args []) = ?e # snd (searchDirs fs h cmd args defaultSearchPath [])"
      using wrapEnv_absent [of cmd fs h args "[]"] False True
        searchDirs_log [of fs h cmd args defaultSearchPath "[?e]"] by simp
    have e: "fs' ?e = Inl ErrNotExist"
      and r: "\<forall>p \<in> set (snd (searchDirs fs h cmd args defaultSearchPath [])). fs' p = fs p"
      using assms(1) True unfolding s by simp_all
    have "wrapEnv fs' h cmd args log = searchDirs fs' h cmd args defaultSearchPath (log @ [?e])"
      using False e by (rule wrapEnv_absent)
    also have "\<dots> = searchDirs fs h cmd args defaultSearchPath (log @ [?e])"
      using r by (rule searchDirs_frame)
    also have "\<dots> = wrapEnv fs h cmd args log"
      using wrapEnv_absent [of cmd fs h args log] False True by simp
    finally show ?thesis .
  next
    case ne: False
    have s: "snd (wrapEnv fs h cmd args []) = [?e]"
      using wrapEnv_present [of cmd fs h args "[]"] False ne by simp
    have e: "fs' ?e \<noteq> Inl ErrNotExist"
      using assms(1) ne unfolding s by simp
    show ?thesis
      using wrapEnv_present [of cmd fs h args log] ne
        wrapEnv_present [of cmd fs' h args log] False e
      by simp
  qed
qed

lemma searchDirs_probes:
  "length log + length (take 1 dirs) \<le> length (snd (searchDirs fs h cmd args dirs log))"
proof (cases dirs)
  case Nil
  then show ?thesis by simp
next
  case (Cons dir ds)
  let ?p = "chrootDir h @ dir @ ''/'' @ cmd"
  show ?thesis
  proof (cases "fs ?p")
    case (Inr fi)
    with Cons show ?thesis
      by (simp add: searchDirs_Cons del: searchDirs.simps)
  next
    case (Inl e)
    with Cons show ?thesis
      using searchDirs_log [of fs h cmd args ds "log @ [?p]"]
      by (simp add: searchDirs_Cons del: searchDirs.simps)
  qed
qed

section \<open>Stage 1: resolving the command name\<close>

text \<open>
  C5. For every name and every argument list: when the name is a key of the command map
  with a non-empty value \<open>v\<close>, \<^verbatim>\<open>resolveCmd\<close> returns \<open>v\<close> and the arguments
  unchanged; for every other name (no such key, or a key mapped to the empty string) it
  returns the name and the arguments unchanged.
\<close>

theorem resolveCmd_spec:
  "(\<forall>v. commandMap h cmd = Some v \<and> v \<noteq> '''' \<longrightarrow> resolveCmd h cmd args = (v, args)) \<and>
   (commandMap h cmd = None \<or> commandMap h cmd = Some '''' \<longrightarrow> resolveCmd h cmd args = (cmd, args))"
  by (auto simp: resolveCmd_def map_lookup_def)

theorem resolveCmd_spec_witness:
  "resolveCmd h_mapped ''mount'' [''-a''] = (''mount.real'', [''-a'']) \<and>
   resolveCmd h_mapped ''blank'' [''-a''] = (''blank'', [''-a'']) \<and>
   resolveCmd h_mapped ''ls'' [''-a''] = (''ls'', [''-a''])"
proof -
  have m: "commandMap h_mapped ''mount'' = Some ''mount.real''"
    and b: "commandMap h_mapped ''blank'' = Some ''''"
    and l: "commandMap h_mapped ''ls'' = None"
    by (simp_all add: h_mapped_def)
  show ?thesis
    using resolveCmd_spec [of h_mapped "''mount''" "[''-a'']"]
      resolveCmd_spec [of h_mapped "''blank''" "[''-a'']"]
      resolveCmd_spec [of h_mapped "''ls''" "[''-a'']"] m b l
    by simp
qed

section \<open>Construction\<close>

text \<open>
  C7. \<^verbatim>\<open>New\<close> fails with an error and returns no wrapper whenever the chroot directory
  is non-empty and does not name an existing directory (the path is missing, cannot be
  read, or is not a directory); and \<^verbatim>\<open>New\<close> succeeds when the chroot directory is
  the empty string, whatever the command map and the filesystem are, without a probe.
\<close>

theorem New_spec:
  "(chrootDir' \<noteq> '''' \<and> fs chrootDir' \<noteq> Inr (FileInfo True) \<longrightarrow>
      fst (New fs cmdMap chrootDir' log) =
        Inl (ErrorString ''chroot directory does not exist or is not a directory'')) \<and>
   New fs cmdMap '''' log = (Inr \<lparr>commandMap = cmdMap, chrootDir = ''''\<rparr>, log)"
proof -
  have "fst (New fs cmdMap chrootDir' log) =
        Inl (ErrorString ''chroot directory does not exist or is not a directory'')"
    if "chrootDir' \<noteq> ''''" and "fs chrootDir' \<noteq> Inr (FileInfo True)"
  proof (cases "fs chrootDir'")
    case (Inl e)
    with that show ?thesis
      by (simp add: New_def os_Stat_def err_of_def)
  next
    case (Inr fi)
    with that have "\<not> IsDir fi"
      by (cases fi) auto
    with that Inr show ?thesis
      by (simp add: New_def os_Stat_def err_of_def)
  qed
  moreover have "New fs cmdMap '''' log = (Inr \<lparr>commandMap = cmdMap, chrootDir = ''''\<rparr>, log)"
    by (simp add: New_def)
  ultimately show ?thesis by blast
qed

theorem New_spec_witness:
  "fst (New fs_none Map.empty ''/nowhere'' []) =
     Inl (ErrorString ''chroot directory does not exist or is not a directory'') \<and>
   fst (New fs_file Map.empty ''/host'' []) =
     Inl (ErrorString ''chroot directory does not exist or is not a directory'') \<and>
   New fs_file Map.empty '''' [] = (Inr h_plain, [])"
proof -
  have a: "''/nowhere'' \<noteq> '''' \<and> fs_none ''/nowhere'' \<noteq> Inr (FileInfo True)"
    by (simp add: fs_none_def)
  have b: "''/host'' \<noteq> '''' \<and> fs_file ''/host'' \<noteq> Inr (FileInfo True)"
    by (simp add: fs_file_def)
  show ?thesis
    using a b New_spec [of "''/nowhere''" fs_none Map.empty "[]"]
      New_spec [of "''/host''" fs_file Map.empty "[]"]
    by (simp add: h_plain_def)
qed

section \<open>Stage 2: explicit paths\<close>

text \<open>
  C6. For every name that contains a path separator and every argument list,
  \<^verbatim>\<open>wrapEnv\<close> returns the name and the arguments as they came, whatever the chroot
  directory and the filesystem are, and it asks the filesystem nothing: the log of
  probes comes back unchanged.
\<close>

theorem wrapEnv_explicit_path:
  "strings_ContainsAny cmd ''/'' \<Longrightarrow> wrapEnv fs h cmd args log = ((cmd, args), log)"
  by (simp add: wrapEnv_def)

theorem wrapEnv_explicit_path_witness:
  "strings_ContainsAny ''/bin/ls'' ''/'' \<and>
   wrapEnv fs_env h_host ''/bin/ls'' [''-l''] [] = ((''/bin/ls'', [''-l'']), [])"
proof -
  have c: "strings_ContainsAny ''/bin/ls'' ''/''"
    by (simp add: strings_ContainsAny_def)
  show ?thesis
    using c wrapEnv_explicit_path [OF c, of fs_env h_host "[''-l'']" "[]"] by simp
qed

text \<open>
  C4. For every name whose value in the command map contains a path separator, and
  every argument list, \<^verbatim>\<open>wrap\<close> resolves the name to that value and skips the
  environment stage: the result is \<^verbatim>\<open>wrapChroot\<close> of the value and the arguments,
  and no probe is made (neither for the helper nor in the search path).
\<close>

theorem wrap_mapped_path:
  assumes "commandMap h cmd = Some v" and "strings_ContainsAny v ''/''"
  shows "wrap fs h cmd args log = (wrapChroot h v args, log)"
proof -
  have "v \<noteq> ''''"
    using assms(2) by (auto simp: strings_ContainsAny_def)
  then have r: "resolveCmd h cmd args = (v, args)"
    using assms(1) by (simp add: resolveCmd_def map_lookup_def)
  have e: "wrapEnv fs h v args log = ((v, args), log)"
    using assms(2) by (simp add: wrapEnv_def)
  show ?thesis
    by (simp add: wrap_unfold r e)
qed

theorem wrap_mapped_path_witness:
  "commandMap h_mapped ''iscsiadm'' = Some ''/usr/local/sbin/iscsiadm'' \<and>
   strings_ContainsAny ''/usr/local/sbin/iscsiadm'' ''/'' \<and>
   wrap fs_none h_mapped ''iscsiadm'' [''-m'', ''session''] [] =
     ((''/usr/sbin/chroot'', [''/host'', ''/usr/local/sbin/iscsiadm'', ''-m'', ''session'']), [])"
proof -
  have m: "commandMap h_mapped ''iscsiadm'' = Some ''/usr/local/sbin/iscsiadm''"
    by (simp add: h_mapped_def)
  have c: "strings_ContainsAny ''/usr/local/sbin/iscsiadm'' ''/''"
    by (simp add: strings_ContainsAny_def)
  have d: "chrootDir h_mapped = ''/host''"
    by (simp add: h_mapped_def)
  show ?thesis
    using m c wrap_mapped_path [OF m c, of fs_none "[''-m'', ''session'']" "[]"]
    by (simp add: wrapChroot_def d)
qed

section \<open>The caller's arguments survive\<close>

text \<open>
  C9. For every name and argument list, under every configuration and filesystem, the
  argument list that \<^verbatim>\<open>wrap\<close> returns ends with the caller's arguments, in order and
  unchanged: \<^verbatim>\<open>resolveCmd\<close> leaves the arguments alone, and \<^verbatim>\<open>wrapEnv\<close> and
  \<^verbatim>\<open>wrapChroot\<close> each return their arguments or put new elements in front of them.
\<close>

theorem wrap_args_suffix:
  "snd (resolveCmd h cmd args) = args \<and>
   suffix args (snd (fst (wrapEnv fs h cmd args log))) \<and>
   suffix args (snd (wrapChroot h cmd args)) \<and>
   suffix args (snd (fst (wrap fs h cmd args log)))"
  using resolveCmd_args wrapEnv_suffix wrapChroot_suffix wrap_suffix by blast

theorem wrap_args_suffix_witness:
  "suffix [''-x''] (snd (fst (wrap fs_env h_host ''foo'' [''-x''] [])))"
  using wrap_args_suffix [of h_host "''foo''" "[''-x'']" fs_env "[]"] by simp

section \<open>Stage 2: the helper check decides between rewriting and searching\<close>

text \<open>
  C10. For every name without a separator, the search-path fallback of \<^verbatim>\<open>wrapEnv\<close>
  runs only when the check of the helper path fails with a not-exist error: more than
  the one probe of the helper path is made exactly in that case. When the check fails
  for any other reason (permission denied, say), the stage probes the helper path only
  and rewrites the call through \<^verbatim>\<open>/usr/bin/env\<close>, which is what it returns on a
  filesystem that differs only in having the helper.
\<close>

theorem wrapEnv_helper_error:
  assumes "\<not> strings_ContainsAny cmd ''/''"
    and "envPath = (if chrootDir h \<noteq> '''' then chrootDir h @ ''/usr/bin/env'' else ''/usr/bin/env'')"
  shows "(length log + 1 < length (snd (wrapEnv fs h cmd args log)) \<longleftrightarrow> fs envPath = Inl ErrNotExist) \<and>
    (\<forall>e. fs envPath = Inl e \<and> e \<noteq> ErrNotExist \<longrightarrow>
       wrapEnv fs h cmd args log =
         ((''/usr/bin/env'',
           [''-i'', ''PATH=/usr/local/sbin:/usr/local/bin:/usr/sbin:/usr/bin:/sbin:/bin'', cmd] @ args),
          log @ [envPath]) \<and>
       wrapEnv fs h cmd args log = wrapEnv (fs(envPath := Inr fi)) h cmd args log)"
proof -
  have absent: "length log + 1 < length (snd (wrapEnv fs h cmd args log))"
    if "fs envPath = Inl ErrNotExist"
  proof -
    have "wrapEnv fs h cmd args log = searchDirs fs h cmd args defaultSearchPath (log @ [envPath])"
      using wrapEnv_absent [of cmd fs h args log] assms that by simp
    then show ?thesis
      using searchDirs_probes [of "log @ [envPath]" defaultSearchPath fs h cmd args]
      by (simp add: defaultSearchPath_def del: searchDirs.simps)
  qed
  have present: "wrapEnv f h cmd args log =
         ((''/usr/bin/env'',
           [''-i'', ''PATH=/usr/local/sbin:/usr/local/bin:/usr/sbin:/usr/bin:/sbin:/bin'', cmd] @ args),
          log @ [envPath])"
    if "f envPath \<noteq> Inl ErrNotExist" for f
    using wrapEnv_present [of cmd f h args log] assms that by simp
  have upd: "wrapEnv (fs(envPath := Inr fi)) h cmd args log =
         ((''/usr/bin/env'',
           [''-i'', ''PATH=/usr/local/sbin:/usr/local/bin:/usr/sbin:/usr/bin:/sbin:/bin'', cmd] @ args),
          log @ [envPath])"
    by (rule present) simp
  have one: "length log + 1 < length (snd (wrapEnv fs h cmd args log)) \<longleftrightarrow> fs envPath = Inl ErrNotExist"
  proof (cases "fs envPath = Inl ErrNotExist")
    case True
    then show ?thesis using absent by simp
  next
    case False
    then show ?thesis using present [of fs] by simp
  qed
  have two: "wrapEnv fs h cmd args log =
         ((''/usr/bin/env'',
           [''-i'', ''PATH=/usr/local/sbin:/usr/local/bin:/usr/sbin:/usr/bin:/sbin:/bin'', cmd] @ args),
          log @ [envPath]) \<and>
       wrapEnv fs h cmd args log = wrapEnv (fs(envPath := Inr fi)) h cmd args log"
    if "fs envPath = Inl e" and "e \<noteq> ErrNotExist" for e
  proof -
    have "fs envPath \<noteq> Inl ErrNotExist"
      using that by simp
    then show ?thesis
      using present [of fs] upd by simp
  qed
  from one two show ?thesis
    by blast
qed

theorem wrapEnv_helper_error_witness:
  "fs_denied ''/host/usr/bin/env'' = Inl ErrPermission \<and>
   fs_denied ''/host/bin/foo'' = Inr (FileInfo False) \<and>
   wrapEnv fs_denied h_host ''foo'' [] [] =
     ((''/usr/bin/env'',
       [''-i'', ''PATH=/usr/local/sbin:/usr/local/bin:/usr/sbin:/usr/bin:/sbin:/bin'', ''foo'']),
      [''/host/usr/bin/env'']) \<and>
   wrapEnv fs_denied h_host ''foo'' [] [] = wrapEnv fs_env h_host ''foo'' [] []"
proof -
  have c: "\<not> strings_ContainsAny ''foo'' ''/''"
    by (simp add: strings_ContainsAny_def)
  have p: "''/host/usr/bin/env'' =
      (if chrootDir h_host \<noteq> '''' then chrootDir h_host @ ''/usr/bin/env'' else ''/usr/bin/env'')"
    by (simp add: h_host_def)
  have d: "fs_denied ''/host/usr/bin/env'' = Inl ErrPermission"
    and f: "fs_denied ''/host/bin/foo'' = Inr (FileInfo False)"
    by (simp_all add: fs_denied_def)
  have u: "wrapEnv (fs_denied(''/host/usr/bin/env'' := Inr (FileInfo False))) h_host ''foo'' [] [] =
      wrapEnv fs_env h_host ''foo'' [] []"
    by (simp add: wrapEnv_def os_Stat_def err_of_def os_IsNotExist_def strings_ContainsAny_def
        fs_env_def h_host_def Let_def)
  have k: "wrapEnv fs_denied h_host ''foo'' [] [] =
     ((''/usr/bin/env'',
       [''-i'', ''PATH=/usr/local/sbin:/usr/local/bin:/usr/sbin:/usr/bin:/sbin:/bin'', ''foo''] @ []),
      [] @ [''/host/usr/bin/env'']) \<and>
    wrapEnv fs_denied h_host ''foo'' [] [] =
      wrapEnv (fs_denied(''/host/usr/bin/env'' := Inr (FileInfo False))) h_host ''foo'' [] []"
    using d wrapEnv_helper_error [OF c p, of "[]" fs_denied "[]" "FileInfo False"]
    by blast
  have k1: "wrapEnv fs_denied h_host ''foo'' [] [] =
     ((''/usr/bin/env'',
       [''-i'', ''PATH=/usr/local/sbin:/usr/local/bin:/usr/sbin:/usr/bin:/sbin:/bin'', ''foo'']),
      [''/host/usr/bin/env''])"
    using k by simp
  have k2: "wrapEnv fs_denied h_host ''foo'' [] [] = wrapEnv fs_env h_host ''foo'' [] []"
    using k unfolding u by (rule conjunct2)
  show ?thesis
    by (intro conjI) (rule d f k1 k2)+
qed

section \<open>The pipeline under a chroot directory\<close>

text \<open>
  C1. With a chroot directory \<open>R\<close>, a name that is not remapped and has no separator,
  and the helper present at \<open>R/usr/bin/env\<close>, \<^verbatim>\<open>wrap\<close> returns the program
  \<^verbatim>\<open>/usr/sbin/chroot\<close> and the arguments \<open>R\<close>, \<^verbatim>\<open>/usr/bin/env\<close>, \<^verbatim>\<open>-i\<close>,
  \<^verbatim>\<open>PATH=\<close> followed by the search path joined with colons, the name, and the
  caller's arguments. The claim's instance is the name \<^verbatim>\<open>foo\<close> with the one argument
  \<^verbatim>\<open>-x\<close>; the theorem holds for every such name and every argument list.
\<close>

theorem wrap_env_helper_present:
  assumes "chrootDir h \<noteq> ''''"
    and "commandMap h cmd = None \<or> commandMap h cmd = Some ''''"
    and "\<not> strings_ContainsAny cmd ''/''"
    and "fs (chrootDir h @ ''/usr/bin/env'') = Inr fi"
  shows "fst (wrap fs h cmd args log) =
     (''/usr/sbin/chroot'',
      [chrootDir h, ''/usr/bin/env'', ''-i'',
       ''PATH=/usr/local/sbin:/usr/local/bin:/usr/sbin:/usr/bin:/sbin:/bin'', cmd] @ args)"
proof -
  have r: "resolveCmd h cmd args = (cmd, args)"
    using assms(2) by (rule resolveCmd_unmapped)
  have e: "wrapEnv fs h cmd args log =
     ((''/usr/bin/env'',
       [''-i'', ''PATH=/usr/local/sbin:/usr/local/bin:/usr/sbin:/usr/bin:/sbin:/bin'', cmd] @ args),
      log @ [chrootDir h @ ''/usr/bin/env''])"
    using wrapEnv_present [of cmd fs h args log] assms(1,3,4) by simp
  show ?thesis
    using assms(1) by (simp add: wrap_unfold r e wrapChroot_def)
qed

theorem wrap_env_helper_present_witness:
  "fst (wrap fs_env h_host ''foo'' [''-x''] []) =
     (''/usr/sbin/chroot'',
      [''/host'', ''/usr/bin/env'', ''-i'',
       ''PATH=/usr/local/sbin:/usr/local/bin:/usr/sbin:/usr/bin:/sbin:/bin'', ''foo'', ''-x''])"
proof -
  have a: "chrootDir h_host \<noteq> ''''"
    and b: "commandMap h_host ''foo'' = None \<or> commandMap h_host ''foo'' = Some ''''"
    and c: "\<not> strings_ContainsAny ''foo'' ''/''"
    and d: "fs_env (chrootDir h_host @ ''/usr/bin/env'') = Inr (FileInfo False)"
    by (simp_all add: h_host_def strings_ContainsAny_def fs_env_def)
  show ?thesis
    using a b c d
      wrap_env_helper_present [where h = h_host and cmd = "''foo''" and fs = fs_env
        and fi = "FileInfo False" and args = "[''-x'']" and log = "[]"]
    by (simp add: h_host_def)
qed

text \<open>
  C3. With a chroot directory \<open>R\<close>, a name that is not remapped and has no separator,
  the helper absent at \<open>R/usr/bin/env\<close>, and no directory of the search path holding
  the name under \<open>R\<close> (every probe returns an error), \<^verbatim>\<open>wrap\<close> returns the program
  \<^verbatim>\<open>/usr/sbin/chroot\<close> and the arguments \<open>R\<close>, the bare name, and the caller's
  arguments: the environment stage is the identity, nothing fails, and the chroot
  wrapping is still applied. The claim's instance is the name \<^verbatim>\<open>foo\<close> with no
  arguments.
\<close>

theorem wrap_search_miss:
  assumes "chrootDir h \<noteq> ''''"
    and "commandMap h cmd = None \<or> commandMap h cmd = Some ''''"
    and "\<not> strings_ContainsAny cmd ''/''"
    and "fs (chrootDir h @ ''/usr/bin/env'') = Inl ErrNotExist"
    and "\<forall>dir \<in> set defaultSearchPath. isl (fs (chrootDir h @ dir @ ''/'' @ cmd))"
  shows "fst (wrap fs h cmd args log) = (''/usr/sbin/chroot'', [chrootDir h, cmd] @ args)"
proof -
  have r: "resolveCmd h cmd args = (cmd, args)"
    using assms(2) by (rule resolveCmd_unmapped)
  have "wrapEnv fs h cmd args log =
      searchDirs fs h cmd args defaultSearchPath (log @ [chrootDir h @ ''/usr/bin/env''])"
    using wrapEnv_absent [of cmd fs h args log] assms(1,3,4) by simp
  then have e: "fst (wrapEnv fs h cmd args log) = (cmd, args)"
    using searchDirs_miss [OF assms(5)] by simp
  show ?thesis
    using assms(1) by (simp add: wrap_unfold r e wrapChroot_def)
qed

theorem wrap_search_miss_witness:
  "fst (wrap fs_none h_host ''foo'' [] []) = (''/usr/sbin/chroot'', [''/host'', ''foo''])"
proof -
  have a: "chrootDir h_host \<noteq> ''''"
    and b: "commandMap h_host ''foo'' = None \<or> commandMap h_host ''foo'' = Some ''''"
    and c: "\<not> strings_ContainsAny ''foo'' ''/''"
    and d: "fs_none (chrootDir h_host @ ''/usr/bin/env'') = Inl ErrNotExist"
    and e: "\<forall>dir \<in> set defaultSearchPath. isl (fs_none (chrootDir h_host @ dir @ ''/'' @ ''foo''))"
    by (simp_all add: h_host_def strings_ContainsAny_def fs_none_def defaultSearchPath_def)
  show ?thesis
    using a b c d e
      wrap_search_miss [where h = h_host and cmd = "''foo''" and fs = fs_none
        and args = "[]" and log = "[]"]
    by (simp add: h_host_def)
qed

text \<open>
  C2, as stated: with the helper absent at \<open>R/usr/bin/env\<close> and \<open>R/bin/foo\<close>
  present, \<^verbatim>\<open>wrap\<close> of \<^verbatim>\<open>foo\<close> with no arguments returns the arguments \<open>R\<close>,
  \<^verbatim>\<open>/bin/foo\<close>. That fails when an earlier directory of the search path holds
  \<^verbatim>\<open>foo\<close> too: \<^verbatim>\<open>/bin\<close> is the last entry, and the loop returns at the first hit.
  On the filesystem below, \<^verbatim>\<open>/host/usr/bin/foo\<close> and \<^verbatim>\<open>/host/bin/foo\<close> both exist,
  and the result names \<^verbatim>\<open>/usr/bin/foo\<close>.
\<close>

theorem wrap_bin_two_hits_counterexample:
  "fs_two_foo (chrootDir h_host @ ''/usr/bin/env'') = Inl ErrNotExist \<and>
   fs_two_foo (chrootDir h_host @ ''/bin/foo'') = Inr (FileInfo False) \<and>
   commandMap h_host ''foo'' = None \<and>
   fst (wrap fs_two_foo h_host ''foo'' [] []) = (''/usr/sbin/chroot'', [''/host'', ''/usr/bin/foo'']) \<and>
   snd (fst (wrap fs_two_foo h_host ''foo'' [] [])) \<noteq> [''/host'', ''/bin/foo'']"
  by (simp add: wrap_def wrapEnv_def resolveCmd_def map_lookup_def wrapChroot_def os_Stat_def
      err_of_def os_IsNotExist_def strings_ContainsAny_def strings_TrimPrefix_def
      strings_HasPrefix_def defaultSearchPath_def fs_two_foo_def h_host_def Let_def)

text \<open>
  C2, amended. With a chroot directory \<open>R\<close>, a name that is not remapped and has no
  separator, the helper absent at \<open>R/usr/bin/env\<close>, the name present in \<open>R/bin\<close>, and
  absent from every earlier directory of the search path under \<open>R\<close>, \<^verbatim>\<open>wrap\<close>
  returns the program \<^verbatim>\<open>/usr/sbin/chroot\<close> and the arguments \<open>R\<close>, \<^verbatim>\<open>/bin/\<close>
  followed by the name, and the caller's arguments: the path found under \<open>R\<close> loses
  the prefix \<open>R\<close> before the chroot wrapping puts \<open>R\<close> in front as an argument of
  its own.
\<close>

theorem wrap_search_bin:
  assumes "chrootDir h \<noteq> ''''"
    and "commandMap h cmd = None \<or> commandMap h cmd = Some ''''"
    and "\<not> strings_ContainsAny cmd ''/''"
    and "fs (chrootDir h @ ''/usr/bin/env'') = Inl ErrNotExist"
    and "fs (chrootDir h @ ''/bin/'' @ cmd) = Inr fi"
    and "\<forall>dir \<in> set [''/usr/local/sbin'', ''/usr/local/bin'', ''/usr/sbin'', ''/usr/bin'', ''/sbin''].
           isl (fs (chrootDir h @ dir @ ''/'' @ cmd))"
  shows "fst (wrap fs h cmd args log) = (''/usr/sbin/chroot'', [chrootDir h, ''/bin/'' @ cmd] @ args)"
proof -
  have r: "resolveCmd h cmd args = (cmd, args)"
    using assms(2) by (rule resolveCmd_unmapped)
  have p: "defaultSearchPath =
      [''/usr/local/sbin'', ''/usr/local/bin'', ''/usr/sbin'', ''/usr/bin'', ''/sbin''] @ ''/bin'' # []"
    by (simp add: defaultSearchPath_def)
  have f: "fs (chrootDir h @ ''/bin'' @ ''/'' @ cmd) = Inr fi"
    using assms(5) by simp
  have "wrapEnv fs h cmd args log =
      searchDirs fs h cmd args defaultSearchPath (log @ [chrootDir h @ ''/usr/bin/env''])"
    using wrapEnv_absent [of cmd fs h args log] assms(1,3,4) by simp
  then have e: "fst (wrapEnv fs h cmd args log) = (''/bin'' @ ''/'' @ cmd, args)"
    unfolding p using searchDirs_first_hit [OF assms(6) f] by simp
  show ?thesis
    using assms(1) by (simp add: wrap_unfold r e wrapChroot_def)
qed

theorem wrap_search_bin_witness:
  "fst (wrap fs_bin_foo h_host ''foo'' [] []) = (''/usr/sbin/chroot'', [''/host'', ''/bin/foo''])"
proof -
  have a: "chrootDir h_host \<noteq> ''''"
    and b: "commandMap h_host ''foo'' = None \<or> commandMap h_host ''foo'' = Some ''''"
    and c: "\<not> strings_ContainsAny ''foo'' ''/''"
    and d: "fs_bin_foo (chrootDir h_host @ ''/usr/bin/env'') = Inl ErrNotExist"
    and e: "fs_bin_foo (chrootDir h_host @ ''/bin/'' @ ''foo'') = Inr (FileInfo False)"
    and f: "\<forall>dir \<in> set [''/usr/local/sbin'', ''/usr/local/bin'', ''/usr/sbin'', ''/usr/bin'', ''/sbin''].
           isl (fs_bin_foo (chrootDir h_host @ dir @ ''/'' @ ''foo''))"
    by (simp_all add: h_host_def strings_ContainsAny_def fs_bin_foo_def)
  show ?thesis
    using a b c d e f
      wrap_search_bin [where h = h_host and cmd = "''foo''" and fs = fs_bin_foo
        and fi = "FileInfo False" and args = "[]" and log = "[]"]
    by (simp add: h_host_def)
qed

section \<open>Determinism\<close>

text \<open>
  C8. \<^verbatim>\<open>wrap\<close> is deterministic: with the same configuration, the same filesystem and
  the same name and arguments, two calls return the same program and arguments. The
  model makes \<^verbatim>\<open>wrap\<close> a function of exactly these, so the theorem states what the
  result depends on: two calls agree already when the two configurations have the same
  chroot directory and the same map entry for the name, and the two filesystems answer
  alike on the paths that the first call probes. Identical configurations and
  filesystems are the special case.
\<close>

theorem wrap_deterministic:
  assumes "chrootDir h' = chrootDir h"
    and "commandMap h' cmd = commandMap h cmd"
    and "\<forall>p \<in> set (snd (wrap fs h cmd args [])). fs' p = fs p"
  shows "wrap fs' h' cmd args log = wrap fs h cmd args log"
proof -
  have r: "resolveCmd h' cmd args = resolveCmd h cmd args"
    using assms(2) by (simp add: resolveCmd_def map_lookup_def)
  have c: "wrapChroot h' c a = wrapChroot h c a" for c a
    using assms(1) by (simp add: wrapChroot_def)
  let ?c = "fst (resolveCmd h cmd args)"
  let ?a = "snd (resolveCmd h cmd args)"
  have "\<forall>p \<in> set (snd (wrapEnv fs h ?c ?a [])). fs' p = fs p"
    using assms(3) by (simp add: wrap_unfold)
  then have "wrapEnv fs' h ?c ?a log = wrapEnv fs h ?c ?a log"
    by (rule wrapEnv_frame)
  then have e: "wrapEnv fs' h' ?c ?a log = wrapEnv fs h ?c ?a log"
    using wrapEnv_chrootDir [OF assms(1), of fs' ?c ?a log] by simp
  show ?thesis
    by (simp add: wrap_unfold r c e)
qed

theorem wrap_deterministic_witness:
  "fs_usr_bin_foo ''/host/bin/foo'' \<noteq> fs_two_foo ''/host/bin/foo'' \<and>
   wrap fs_usr_bin_foo h_mapped ''foo'' [''-v''] [] = wrap fs_two_foo h_host ''foo'' [''-v''] [] \<and>
   wrap fs_two_foo h_host ''foo'' [''-v''] [] = wrap fs_two_foo h_host ''foo'' [''-v''] []"
proof -
  have a: "chrootDir h_mapped = chrootDir h_host"
    and b: "commandMap h_mapped ''foo'' = commandMap h_host ''foo''"
    by (simp_all add: h_mapped_def h_host_def)
  have l: "snd (wrap fs_two_foo h_host ''foo'' [''-v''] []) =
      [''/host/usr/bin/env'', ''/host/usr/local/sbin/foo'', ''/host/usr/local/bin/foo'',
       ''/host/usr/sbin/foo'', ''/host/usr/bin/foo'']"
    by (simp add: wrap_def wrapEnv_def resolveCmd_def map_lookup_def wrapChroot_def os_Stat_def
      err_of_def os_IsNotExist_def strings_ContainsAny_def strings_TrimPrefix_def
      strings_HasPrefix_def defaultSearchPath_def fs_two_foo_def h_host_def Let_def)
  have f: "\<forall>p \<in> set (snd (wrap fs_two_foo h_host ''foo'' [''-v''] [])). fs_usr_bin_foo p = fs_two_foo p"
    unfolding l by (simp add: fs_usr_bin_foo_def fs_two_foo_def)
  have d: "fs_usr_bin_foo ''/host/bin/foo'' \<noteq> fs_two_foo ''/host/bin/foo''"
    by (simp add: fs_usr_bin_foo_def fs_two_foo_def)
  show ?thesis
    using d wrap_deterministic [OF a b f, of "[]"]
    by simp
qed

end
